theory Spec2Isabelle
  imports Complex_Main "HOL-Library.AList"
begin

section \<open>Source-image path resolver: a shallow embedding of utils.py and plugin.py\<close>

text \<open>
  The two Python modules are pure filesystem readers: every observable effect is a query of
  the operating system (\<open>os.path.isdir\<close>, \<open>os.path.isfile\<close>, \<open>glob.glob\<close>,
  \<open>os.path.getmtime\<close>) or of the host configuration. The embedding therefore passes an
  explicit environment \<open>os_env\<close> holding the answers to those queries; the functions of
  the modules are HOL functions of that environment. Messages printed to the console are
  not modelled. Path arithmetic follows \<open>posixpath\<close>.
\<close>

subsection \<open>Python values\<close>

text \<open>
  The values that reach the functions from JSON metadata and from the host:
  \<open>None\<close>, booleans, integers, strings, lists and dictionaries with string keys. A
  dictionary is an association list in insertion order.
\<close>

datatype pyval =
    PNone
  | PBool bool
  | PInt int
  | PStr string
  | PList "pyval list"
  | PDict "(string \<times> pyval) list"

text \<open>Python's truth value, as tested by \<open>if x\<close> and \<open>not x\<close>.\<close>

fun truthy :: "pyval \<Rightarrow> bool" where
  "truthy PNone = False"
| "truthy (PBool b) = b"
| "truthy (PInt i) = (i \<noteq> 0)"
| "truthy (PStr s) = (s \<noteq> [])"
| "truthy (PList xs) = (xs \<noteq> [])"
| "truthy (PDict kvs) = (kvs \<noteq> [])"

text \<open>The truth value of an \<open>Optional[str]\<close>: \<open>None\<close> and the empty string are false.\<close>

fun truthy_path :: "string option \<Rightarrow> bool" where
  "truthy_path None = False"
| "truthy_path (Some p) = (p \<noteq> [])"

text \<open>\<open>d.get(k)\<close> and \<open>d.get(k, default)\<close>.\<close>

definition dict_get :: "(string \<times> pyval) list \<Rightarrow> string \<Rightarrow> pyval" where
  "dict_get d k = (case map_of d k of None \<Rightarrow> PNone | Some v \<Rightarrow> v)"

definition dict_get_default :: "(string \<times> pyval) list \<Rightarrow> string \<Rightarrow> pyval \<Rightarrow> pyval" where
  "dict_get_default d k dflt = (case map_of d k of None \<Rightarrow> dflt | Some v \<Rightarrow> v)"

text \<open>
  \<open>d[k] = v\<close>: an existing key keeps its position, a new key is appended.
\<close>

definition dict_set :: "(string \<times> pyval) list \<Rightarrow> string \<Rightarrow> pyval \<Rightarrow> (string \<times> pyval) list" where
  "dict_set d k v = AList.update k v d"

datatype py_error = TypeError | AttributeError | ValueError | OverflowError | OSError

subsection \<open>Strings and paths\<close>

text \<open>\<open>str.lower\<close> on the ASCII letters; every other character is left as it is.\<close>

definition lower_char :: "char \<Rightarrow> char" where
  "lower_char c =
     (if (65::nat) \<le> of_char c \<and> of_char c \<le> (90::nat) then char_of (of_char c + (32::nat)) else c)"

definition lower :: "string \<Rightarrow> string" where
  "lower s = map lower_char s"

text \<open>\<open>s.startswith(p)\<close> and the substring test \<open>needle in s\<close>.\<close>

fun startswith :: "string \<Rightarrow> string \<Rightarrow> bool" where
  "startswith s [] = True"
| "startswith [] (p # ps) = False"
| "startswith (c # cs) (p # ps) = (c = p \<and> startswith cs ps)"

fun str_in :: "string \<Rightarrow> string \<Rightarrow> bool" where
  "str_in needle [] = (needle = [])"
| "str_in needle (c # cs) = (startswith (c # cs) needle \<or> str_in needle cs)"

text \<open>\<open>posixpath.join(a, b)\<close>, \<open>posixpath.basename\<close> and \<open>posixpath.dirname\<close>.\<close>

definition os_path_join :: "string \<Rightarrow> string \<Rightarrow> string" where
  "os_path_join a b =
     (if startswith b ''/'' then b
      else if a = [] \<or> last a = CHR ''/'' then a @ b
      else a @ ''/'' @ b)"

definition os_path_basename :: "string \<Rightarrow> string" where
  "os_path_basename p = rev (takeWhile (\<lambda>c. c \<noteq> CHR ''/'') (rev p))"

definition os_path_dirname :: "string \<Rightarrow> string" where
  "os_path_dirname p =
     (let head = rev (dropWhile (\<lambda>c. c \<noteq> CHR ''/'') (rev p))
      in if list_all (\<lambda>c. c = CHR ''/'') head then head
         else rev (dropWhile (\<lambda>c. c = CHR ''/'') (rev head)))"

subsection \<open>The environment\<close>

text \<open>
  The host configuration read by \<open>get_configured_output_dirs\<close>: the three configured save
  paths and the value stored under \<open>source_images_search_dirs\<close>, which may be missing or
  may hold something that is not a list.
\<close>

datatype custom_dirs_value = Missing | NotAList | DirList "string list"

record server_config =
  save_path :: "string option"
  image_save_path :: "string option"
  audio_save_path :: "string option"
  source_images_search_dirs :: custom_dirs_value

text \<open>
  \<open>glob\<close> is \<open>glob.glob(pattern, recursive=True)\<close>; \<open>getmtime\<close> is \<open>None\<close> where
  \<open>os.path.getmtime\<close> raises \<open>OSError\<close> (the path cannot be examined, as for a dangling
  symbolic link, which \<open>glob\<close> does list); times are the finite floats that the call
  returns, ordered as real numbers. \<open>isfile_fd\<close> answers \<open>os.path.isfile\<close> on an integer,
  which Python reads as an open file descriptor. \<open>plugin_dir\<close> is
  \<open>os.path.dirname(os.path.abspath(__file__))\<close>, the same for both modules.
  \<open>plugin_config\<close> is \<open>_plugin_instance.server_config\<close>, \<open>None\<close> when there is no
  instance, no such attribute, or a configuration that is empty.
\<close>

record os_env =
  isdir :: "string \<Rightarrow> bool"
  isfile :: "string \<Rightarrow> bool"
  isfile_fd :: "int \<Rightarrow> bool"
  glob :: "string \<Rightarrow> string list"
  getmtime :: "string \<Rightarrow> real option"
  plugin_dir :: string
  plugin_config :: "server_config option"

text \<open>
  \<open>os.path.isfile\<close> on an arbitrary value. A string is a path; an integer (and a boolean,
  which is an integer) is a file descriptor, which must fit a C \<open>int\<close>; \<open>os.stat\<close>
  rejects everything else.
\<close>

fun os_path_isfile :: "os_env \<Rightarrow> pyval \<Rightarrow> py_error + bool" where
  "os_path_isfile env (PStr s) = Inr (isfile env s)"
| "os_path_isfile env (PInt i) =
     (if - (2 ^ 31) \<le> i \<and> i < 2 ^ 31 then Inr (isfile_fd env i) else Inl OverflowError)"
| "os_path_isfile env (PBool b) = Inr (isfile_fd env (if b then 1 else 0))"
| "os_path_isfile env v = Inl TypeError"

text \<open>The test \<open>path and os.path.isfile(path)\<close>.\<close>

definition path_and_isfile :: "os_env \<Rightarrow> pyval \<Rightarrow> py_error + bool" where
  "path_and_isfile env path = (if \<not> truthy path then Inr False else os_path_isfile env path)"

subsection \<open>utils.py: \<open>find_file_by_name\<close>\<close>

text \<open>
  \<open>max(matches, key=os.path.getmtime)\<close>: the key of every match is computed, a failing
  \<open>getmtime\<close> raises, and the first match with the greatest key is returned (a later match
  replaces the current best only when its key is strictly greater).
\<close>

fun max_by_key :: "string \<times> real \<Rightarrow> (string \<times> real) list \<Rightarrow> string" where
  "max_by_key best [] = fst best"
| "max_by_key best (x # xs) = max_by_key (if snd x > snd best then x else best) xs"

definition max_getmtime :: "os_env \<Rightarrow> string list \<Rightarrow> py_error + string" where
  "max_getmtime env matches =
     (case those (map (getmtime env) matches) of
        None \<Rightarrow> Inl OSError
      | Some keys \<Rightarrow>
          (case zip matches keys of
             [] \<Rightarrow> Inl ValueError
           | first # others \<Rightarrow> Inr (max_by_key first others)))"

text \<open>The loop \<open>for search_dir in search_dirs\<close>.\<close>

fun find_in_dirs :: "os_env \<Rightarrow> pyval \<Rightarrow> string list \<Rightarrow> bool \<Rightarrow> py_error + string option" where
  "find_in_dirs env filename [] recursive = Inr None"
| "find_in_dirs env filename (search_dir # rest) recursive =
     (if \<not> isdir env search_dir then find_in_dirs env filename rest recursive
      else case filename of
        PStr name \<Rightarrow>
          (let direct_path = os_path_join search_dir name
           in if isfile env direct_path then Inr (Some direct_path)
              else if recursive then
                (let pattern = os_path_join (os_path_join search_dir ''**'') name;
                     matches = glob env pattern
                 in if matches \<noteq> [] then
                      (case max_getmtime env matches of
                         Inl e \<Rightarrow> Inl e
                       | Inr m \<Rightarrow> Inr (Some m))
                    else find_in_dirs env filename rest recursive)
              else find_in_dirs env filename rest recursive)
      | _ \<Rightarrow> Inl TypeError)"

definition default_search_dirs :: "os_env \<Rightarrow> string list" where
  "default_search_dirs env =
     (let root_dir = os_path_dirname (os_path_dirname (plugin_dir env))
      in [os_path_join root_dir ''outputs''])"

definition find_file_by_name ::
  "os_env \<Rightarrow> pyval \<Rightarrow> string list option \<Rightarrow> bool \<Rightarrow> py_error + string option" where
  "find_file_by_name env filename search_dirs recursive =
     (if \<not> truthy filename then Inr None
      else
        (let dirs = (case search_dirs of
                       None \<Rightarrow> default_search_dirs env
                     | Some ds \<Rightarrow> if ds = [] then default_search_dirs env else ds)
         in find_in_dirs env filename dirs recursive))"

text \<open>
  The filesystem calls that \<open>find_file_by_name\<close> makes, in the order in which it makes
  them: the same control flow, recording each query. The keys of \<open>max\<close> are computed
  match by match until one raises.
\<close>

datatype fs_call = IsDir string | IsFile string | Glob string | GetMTime string

fun getmtime_calls :: "os_env \<Rightarrow> string list \<Rightarrow> fs_call list" where
  "getmtime_calls env [] = []"
| "getmtime_calls env (m # ms) =
     GetMTime m # (if getmtime env m = None then [] else getmtime_calls env ms)"

fun find_in_dirs_calls :: "os_env \<Rightarrow> pyval \<Rightarrow> string list \<Rightarrow> bool \<Rightarrow> fs_call list" where
  "find_in_dirs_calls env filename [] recursive = []"
| "find_in_dirs_calls env filename (search_dir # rest) recursive =
     IsDir search_dir #
     (if \<not> isdir env search_dir then find_in_dirs_calls env filename rest recursive
      else case filename of
        PStr name \<Rightarrow>
          (let direct_path = os_path_join search_dir name
           in IsFile direct_path #
              (if isfile env direct_path then []
               else if recursive then
                 (let pattern = os_path_join (os_path_join search_dir ''**'') name;
                      matches = glob env pattern
                  in Glob pattern #
                     (if matches \<noteq> [] then getmtime_calls env matches
                      else find_in_dirs_calls env filename rest recursive))
               else find_in_dirs_calls env filename rest recursive))
      | _ \<Rightarrow> [])"

definition find_file_by_name_calls ::
  "os_env \<Rightarrow> pyval \<Rightarrow> string list option \<Rightarrow> bool \<Rightarrow> fs_call list" where
  "find_file_by_name_calls env filename search_dirs recursive =
     (if \<not> truthy filename then []
      else
        (let dirs = (case search_dirs of
                       None \<Rightarrow> default_search_dirs env
                     | Some ds \<Rightarrow> if ds = [] then default_search_dirs env else ds)
         in find_in_dirs_calls env filename dirs recursive))"

text \<open>Two environments give the same answer to a call.\<close>

fun same_answer :: "os_env \<Rightarrow> os_env \<Rightarrow> fs_call \<Rightarrow> bool" where
  "same_answer env env' (IsDir p) = (isdir env' p = isdir env p)"
| "same_answer env env' (IsFile p) = (isfile env' p = isfile env p)"
| "same_answer env env' (Glob pattern) = (glob env' pattern = glob env pattern)"
| "same_answer env env' (GetMTime p) = (getmtime env' p = getmtime env p)"

subsection \<open>utils.py: \<open>resolve_source_image\<close>\<close>

text \<open>
  The classification of a path string as temporary, as \<open>resolve_source_image\<close> writes it:
  \<open>'gradio' in s.lower() and 'temp' in s.lower()\<close>.
\<close>

definition resolve_source_image_is_temp :: "string \<Rightarrow> bool" where
  "resolve_source_image_is_temp source_info =
     (str_in ''gradio'' (lower source_info) \<and> str_in ''temp'' (lower source_info))"

text \<open>An \<open>Optional[str]\<close> as a Python value.\<close>

fun path_value :: "string option \<Rightarrow> pyval" where
  "path_value None = PNone"
| "path_value (Some p) = PStr p"

definition resolve_source_image ::
  "os_env \<Rightarrow> pyval \<Rightarrow> string list option \<Rightarrow> py_error + pyval" where
  "resolve_source_image env source_info search_dirs =
     (if \<not> truthy source_info then Inr PNone
      else case source_info of
        PStr s \<Rightarrow>
          (let is_temp = resolve_source_image_is_temp s
           in if \<not> is_temp \<and> isfile env s then Inr (PStr s)
              else
                (let filename = os_path_basename s
                 in case find_file_by_name env (PStr filename) search_dirs True of
                      Inl e \<Rightarrow> Inl e
                    | Inr found \<Rightarrow>
                        if truthy_path found then Inr (path_value found)
                        else if isfile env s then Inr (PStr s)
                        else Inr PNone))
      | PDict d \<Rightarrow>
          (let path = dict_get d ''path'';
               filename = dict_get d ''filename'';
               is_temp = dict_get_default d ''is_temp'' (PBool False)
           in case (if \<not> truthy is_temp then path_and_isfile env path else Inr False) of
                Inl e \<Rightarrow> Inl e
              | Inr True \<Rightarrow> Inr path
              | Inr False \<Rightarrow>
                  (case (if truthy filename
                         then find_file_by_name env filename search_dirs True
                         else Inr None) of
                     Inl e \<Rightarrow> Inl e
                   | Inr found \<Rightarrow>
                       if truthy_path found then Inr (path_value found)
                       else
                         (case path_and_isfile env path of
                            Inl e \<Rightarrow> Inl e
                          | Inr True \<Rightarrow> Inr path
                          | Inr False \<Rightarrow> Inr PNone)))
      | _ \<Rightarrow> Inr PNone)"

subsection \<open>utils.py: \<open>get_source_images_from_metadata\<close>\<close>





subsection \<open>plugin.py\<close>

text \<open>
  \<open>get_configured_output_dirs\<close>. The test \<open>path and os.path.isdir(path) and path not in
  search_dirs\<close> guards every append.
\<close>

definition add_dir :: "os_env \<Rightarrow> string list \<Rightarrow> string \<Rightarrow> string list" where
  "add_dir env search_dirs path =
     (if path \<noteq> [] \<and> isdir env path \<and> path \<notin> set search_dirs then search_dirs @ [path]
      else search_dirs)"

definition add_configured :: "os_env \<Rightarrow> string list \<Rightarrow> string option \<Rightarrow> string list" where
  "add_configured env search_dirs path =
     (case path of None \<Rightarrow> search_dirs | Some p \<Rightarrow> add_dir env search_dirs p)"

definition get_configured_output_dirs :: "os_env \<Rightarrow> string list" where
  "get_configured_output_dirs env =
     (let root_dir = os_path_dirname (os_path_dirname (plugin_dir env));
          search_dirs =
            (case plugin_config env of
               None \<Rightarrow> []
             | Some config \<Rightarrow>
                 (let dirs = foldl (add_configured env) []
                               [save_path config, image_save_path config, audio_save_path config]
                  in case source_images_search_dirs config of
                       DirList custom_dirs \<Rightarrow> foldl (add_dir env) dirs custom_dirs
                     | _ \<Rightarrow> dirs));
          default_outputs = os_path_join root_dir ''outputs''
      in if isdir env default_outputs \<and> default_outputs \<notin> set search_dirs
         then search_dirs @ [default_outputs] else search_dirs)"

text \<open>
  The classification of a path as temporary, as \<open>resolve_and_build_info\<close> writes it:
  \<open>'gradio' in path.lower() and ('temp' in path.lower() or 'appdata' in path.lower())\<close>.
\<close>

definition resolve_and_build_info_is_temp :: "string \<Rightarrow> bool" where
  "resolve_and_build_info_is_temp path =
     (str_in ''gradio'' (lower path)
      \<and> (str_in ''temp'' (lower path) \<or> str_in ''appdata'' (lower path)))"

definition resolve_and_build_info ::
  "os_env \<Rightarrow> pyval \<Rightarrow> py_error + (string \<times> pyval) list option" where
  "resolve_and_build_info env path =
     (case path of
        PStr p \<Rightarrow>
          if p = [] then Inr None
          else
            (let filename = os_path_basename p;
                 is_temp = resolve_and_build_info_is_temp p;
                 info = [(''filename'', PStr filename), (''is_temp'', PBool is_temp)]
             in if is_temp then
                  (let search_dirs = get_configured_output_dirs env
                   in case find_file_by_name env (PStr filename) (Some search_dirs) True of
                        Inl e \<Rightarrow> Inl e
                      | Inr original_path \<Rightarrow>
                          if truthy_path original_path
                          then Inr (Some (dict_set info ''original_path'' (path_value original_path)))
                          else Inr (Some (dict_set info ''temp_path'' (PStr p))))
                else Inr (Some (dict_set info ''original_path'' (PStr p))))
      | _ \<Rightarrow> Inr None)"

text \<open>\<open>process_source_paths\<close>: the inner loop, the body of the outer loop, the outer loop.\<close>

fun build_infos ::
  "os_env \<Rightarrow> pyval list \<Rightarrow> pyval list \<Rightarrow> py_error + pyval list" where
  "build_infos env [] info_list = Inr info_list"
| "build_infos env (p # ps) info_list =
     (case resolve_and_build_info env p of
        Inl e \<Rightarrow> Inl e
      | Inr None \<Rightarrow> build_infos env ps info_list
      | Inr (Some info) \<Rightarrow> build_infos env ps (info_list @ [PDict info]))"

definition process_value :: "os_env \<Rightarrow> pyval \<Rightarrow> py_error + pyval option" where
  "process_value env v =
     (case v of
        PNone \<Rightarrow> Inr None
      | PList ps \<Rightarrow>
          (case build_infos env ps [] of
             Inl e \<Rightarrow> Inl e
           | Inr info_list \<Rightarrow>
               if info_list \<noteq> [] then
                 Inr (Some (if length info_list > 1 then PList info_list else hd info_list))
               else Inr None)
      | PStr s \<Rightarrow>
          (case resolve_and_build_info env v of
             Inl e \<Rightarrow> Inl e
           | Inr None \<Rightarrow> Inr None
           | Inr (Some info) \<Rightarrow> Inr (Some (PDict info)))
      | _ \<Rightarrow> Inr None)"

fun process_roles ::
  "os_env \<Rightarrow> (string \<times> pyval) list \<Rightarrow> (string \<times> pyval) list
     \<Rightarrow> py_error + (string \<times> pyval) list" where
  "process_roles env [] result = Inr result"
| "process_roles env ((k, v) # kvs) result =
     (case process_value env v of
        Inl e \<Rightarrow> Inl e
      | Inr None \<Rightarrow> process_roles env kvs result
      | Inr (Some r) \<Rightarrow> process_roles env kvs (dict_set result k r))"

definition process_source_paths ::
  "os_env \<Rightarrow> pyval \<Rightarrow> py_error + (string \<times> pyval) list option" where
  "process_source_paths env source_paths =
     (if \<not> truthy source_paths then Inr None
      else case source_paths of
             PDict kvs \<Rightarrow>
               (case process_roles env kvs [] of
                  Inl e \<Rightarrow> Inl e
                | Inr result \<Rightarrow> if result \<noteq> [] then Inr (Some result) else Inr None)
           | _ \<Rightarrow> Inl AttributeError)"

subsection \<open>Concrete environments\<close>

text \<open>
  A directory tree given as a listing: every existing path below the root, in the order
  in which the operating system enumerates it, with its kind and modification time. The
  environment of a listing answers the queries from it. \<open>listing_glob\<close> is the recursive glob for
  patterns whose components are literal names or \<open>**\<close>, the only patterns that the
  examples below use: \<open>**\<close> stands for any number of directories whose names do not start
  with a dot, and a literal component names any entry, file or directory.
\<close>

datatype fs_entry = RegularFile real | Folder real

fun entry_mtime :: "fs_entry \<Rightarrow> real" where
  "entry_mtime (RegularFile t) = t"
| "entry_mtime (Folder t) = t"

fun split_path :: "string \<Rightarrow> string list" where
  "split_path [] = [[]]"
| "split_path (c # cs) =
     (if c = CHR ''/'' then [] # split_path cs
      else (case split_path cs of [] \<Rightarrow> [[c]] | x # xs \<Rightarrow> (c # x) # xs))"

fun glob_match :: "string list \<Rightarrow> string list \<Rightarrow> bool" where
  "glob_match [] cs = (cs = [])"
| "glob_match (p # ps) [] = (p = ''**'' \<and> glob_match ps [])"
| "glob_match (p # ps) (c # cs) =
     (if p = ''**''
      then glob_match ps (c # cs) \<or> (\<not> startswith c ''.'' \<and> glob_match (p # ps) cs)
      else p = c \<and> glob_match ps cs)"

definition listing_glob :: "(string \<times> fs_entry) list \<Rightarrow> string \<Rightarrow> string list" where
  "listing_glob fs pattern =
     filter (\<lambda>p. glob_match (split_path pattern) (split_path p)) (map fst fs)"

definition listing_env :: "(string \<times> fs_entry) list \<Rightarrow> string \<Rightarrow> server_config option \<Rightarrow> os_env" where
  "listing_env fs pdir config =
     \<lparr> isdir = (\<lambda>p. case map_of fs p of Some (Folder t) \<Rightarrow> True | _ \<Rightarrow> False),
       isfile = (\<lambda>p. case map_of fs p of Some (RegularFile t) \<Rightarrow> True | _ \<Rightarrow> False),
       isfile_fd = (\<lambda>i. False),
       glob = listing_glob fs,
       getmtime = (\<lambda>p. map_option entry_mtime (map_of fs p)),
       plugin_dir = pdir,
       plugin_config = config \<rparr>"

text \<open>
  Three output directories: \<open>/a\<close> holds \<open>img.png\<close> only inside its subdirectories
  \<open>old\<close> and \<open>new\<close>, \<open>/b\<close> holds it directly, \<open>/c\<close> is empty. The plugin lives in
  \<open>/app/plugins/source_images\<close>, so the default output directory is \<open>/app/outputs\<close>.
  Two uploads lie in the temporary directory \<open>/home/me/temp/gradio/abc\<close>; of these only
  \<open>img.png\<close> has an original in an output directory.
\<close>

definition two_dirs_fs :: "(string \<times> fs_entry) list" where
  "two_dirs_fs =
     [(''/a'', Folder 5), (''/a/old'', Folder 5), (''/a/old/img.png'', RegularFile 10),
      (''/a/new'', Folder 5), (''/a/new/img.png'', RegularFile 20),
      (''/b'', Folder 5), (''/b/img.png'', RegularFile 30), (''/c'', Folder 5),
      (''/app'', Folder 1), (''/app/outputs'', Folder 1), (''/app/outputs/img.png'', RegularFile 40),
      (''/app/plugins'', Folder 1), (''/app/plugins/source_images'', Folder 1),
      (''/home'', Folder 1), (''/home/me'', Folder 1), (''/home/me/temp'', Folder 1),
      (''/home/me/temp/gradio'', Folder 1), (''/home/me/temp/gradio/abc'', Folder 1),
      (''/home/me/temp/gradio/abc/img.png'', RegularFile 50),
      (''/home/me/temp/gradio/abc/upload.png'', RegularFile 60),
      (''/real'', Folder 1), (''/real/a.png'', RegularFile 70), (''/real/b.png'', RegularFile 80)]"

definition two_dirs_env :: os_env where
  "two_dirs_env = listing_env two_dirs_fs ''/app/plugins/source_images'' None"

text \<open>
  The same plugin location without any default output directory: only \<open>/b\<close> exists.
\<close>

definition no_outputs_env :: os_env where
  "no_outputs_env =
     listing_env [(''/b'', Folder 5), (''/b/img.png'', RegularFile 30)]
       ''/app/plugins/source_images'' None"

text \<open>
  An output directory in which \<open>/out/run1/img.png\<close> is a directory, not a file.
\<close>

definition folder_named_img_env :: os_env where
  "folder_named_img_env =
     listing_env [(''/out'', Folder 1), (''/out/run1'', Folder 2), (''/out/run1/img.png'', Folder 3)]
       ''/app/plugins/source_images'' None"

text \<open>
  An installation whose upload directory lies below \<open>AppData\<close> and has no \<open>temp\<close> in
  its name; the upload \<open>img.png\<close> has its original in the default output directory.
\<close>

definition appdata_env :: os_env where
  "appdata_env =
     listing_env
       [(''/app'', Folder 1), (''/app/outputs'', Folder 1), (''/app/outputs/img.png'', RegularFile 10),
        (''/app/plugins'', Folder 1), (''/app/plugins/source_images'', Folder 1),
        (''/mnt'', Folder 1), (''/mnt/c'', Folder 1), (''/mnt/c/Users'', Folder 1),
        (''/mnt/c/Users/me'', Folder 1), (''/mnt/c/Users/me/AppData'', Folder 1),
        (''/mnt/c/Users/me/AppData/Local'', Folder 1),
        (''/mnt/c/Users/me/AppData/Local/gradio_cache'', Folder 1),
        (''/mnt/c/Users/me/AppData/Local/gradio_cache/ab12'', Folder 1),
        (''/mnt/c/Users/me/AppData/Local/gradio_cache/ab12/img.png'', RegularFile 20)]
       ''/app/plugins/source_images'' None"

text \<open>
  A role map as the host hands it to \<open>process_source_paths\<close>, and the \<open>source_images\<close>
  entry of a metadata record as \<open>get_source_images_from_metadata\<close> reads it.
\<close>

definition example_roles :: "(string \<times> pyval) list" where
  "example_roles =
     [(''image_start'', PStr ''/home/me/temp/gradio/abc/upload.png''),
      (''image_refs'', PList [PStr ''/real/a.png'', PStr ''/real/b.png'']),
      (''image_end'', PNone),
      (''image_mask'', PList [PStr ''/real/a.png'', PNone]),
      (''image_guide'', PList [PStr [], PInt 3])]"


section \<open>Properties\<close>

subsection \<open>Auxiliary facts\<close>

lemma startswith_iff: "startswith s p \<longleftrightarrow> (\<exists>q. s = p @ q)"
  by (induction s p rule: startswith.induct) auto

lemma str_in_iff: "str_in needle s \<longleftrightarrow> (\<exists>p q. s = p @ needle @ q)"
proof (induction s)
  case Nil
  then show ?case by auto
next
  case (Cons c cs)
  show ?case
  proof
    assume "str_in needle (c # cs)"
    then consider "startswith (c # cs) needle" | "str_in needle cs" by auto
    then show "\<exists>p q. c # cs = p @ needle @ q"
    proof cases
      case 1
      then obtain q where "c # cs = needle @ q" by (auto simp: startswith_iff)
      then have "c # cs = [] @ needle @ q" by simp
      then show ?thesis by blast
    next
      case 2
      with Cons obtain p q where "cs = p @ needle @ q" by auto
      then have "c # cs = (c # p) @ needle @ q" by simp
      then show ?thesis by blast
    qed
  next
    assume "\<exists>p q. c # cs = p @ needle @ q"
    then obtain p q where pq: "c # cs = p @ needle @ q" by blast
    show "str_in needle (c # cs)"
    proof (cases p)
      case Nil
      with pq have "startswith (c # cs) needle" by (auto simp: startswith_iff)
      then show ?thesis by simp
    next
      case (Cons a p')
      with pq have "cs = p' @ needle @ q" by simp
      with Cons.IH have "str_in needle cs" by blast
      then show ?thesis by simp
    qed
  qed
qed

lemma find_in_dirs_skip:
  assumes "\<forall>d\<in>set before. \<not> isdir env d \<or>
             (\<not> isfile env (os_path_join d name) \<and>
              (recursive \<longrightarrow> glob env (os_path_join (os_path_join d ''**'') name) = []))"
  shows "find_in_dirs env (PStr name) (before @ rest) recursive =
         find_in_dirs env (PStr name) rest recursive"
  using assms by (induction before) (auto simp: Let_def)

lemma find_in_dirs_calls_skip:
  assumes "\<forall>d\<in>set before. \<not> isdir env d \<or>
             (\<not> isfile env (os_path_join d name) \<and>
              (recursive \<longrightarrow> glob env (os_path_join (os_path_join d ''**'') name) = []))"
  shows "find_in_dirs_calls env (PStr name) (before @ rest) recursive =
         find_in_dirs_calls env (PStr name) before recursive @
         find_in_dirs_calls env (PStr name) rest recursive"
  using assms by (induction before) (auto simp: Let_def)

lemma those_map_Some:
  "(\<forall>m\<in>set ms. f m \<noteq> None) \<Longrightarrow> those (map f ms) = Some (map (\<lambda>m. the (f m)) ms)"
  by (induction ms) auto

lemma max_by_key_greatest:
  "\<exists>t. (max_by_key b xs, t) \<in> set (b # xs) \<and> (\<forall>x\<in>set (b # xs). snd x \<le> t)"
proof (induction xs arbitrary: b)
  case Nil
  show ?case by (cases b) auto
next
  case (Cons x xs)
  let ?b' = "if snd x > snd b then x else b"
  from Cons[of ?b'] obtain t where
    t: "(max_by_key ?b' xs, t) \<in> set (?b' # xs)" "\<forall>y\<in>set (?b' # xs). snd y \<le> t"
    by blast
  have "(max_by_key b (x # xs), t) \<in> set (b # x # xs)"
    using t(1) by (auto split: if_splits)
  moreover have "\<forall>y\<in>set (b # x # xs). snd y \<le> t"
    using t(2) by (auto split: if_splits)
  ultimately show ?case by blast
qed

lemma max_getmtime_greatest:
  assumes "matches \<noteq> []" and "\<forall>m\<in>set matches. getmtime env m \<noteq> None"
  shows "\<exists>best t. max_getmtime env matches = Inr best \<and> best \<in> set matches \<and>
           getmtime env best = Some t \<and>
           (\<forall>m\<in>set matches. \<forall>t'. getmtime env m = Some t' \<longrightarrow> t' \<le> t)"
proof -
  let ?kv = "map (\<lambda>m. (m, the (getmtime env m))) matches"
  have th: "those (map (getmtime env) matches) = Some (map (\<lambda>m. the (getmtime env m)) matches)"
    using assms(2) by (rule those_map_Some)
  have z: "zip matches (map (\<lambda>m. the (getmtime env m)) matches) = ?kv"
    by (induction matches) auto
  from assms(1) obtain m ms where ms: "matches = m # ms" by (cases matches) auto
  then have kv: "?kv = (m, the (getmtime env m)) # map (\<lambda>m. (m, the (getmtime env m))) ms"
    by simp
  let ?b = "(m, the (getmtime env m))" and ?r = "map (\<lambda>m. (m, the (getmtime env m))) ms"
  have "max_getmtime env matches =
          (case ?kv of [] \<Rightarrow> Inl ValueError | first # others \<Rightarrow> Inr (max_by_key first others))"
    by (simp only: max_getmtime_def th option.case z)
  also have "\<dots> = Inr (max_by_key ?b ?r)"
    by (simp only: kv list.case)
  finally have res: "max_getmtime env matches = Inr (max_by_key ?b ?r)" .
  from max_by_key_greatest[of ?b ?r] obtain t where
    t: "(max_by_key ?b ?r, t) \<in> set (?b # ?r)" "\<forall>x\<in>set (?b # ?r). snd x \<le> t" by blast
  from t(1) have mem: "max_by_key ?b ?r \<in> set matches" and
      tm: "t = the (getmtime env (max_by_key ?b ?r))"
    using ms by auto
  from mem assms(2) have "getmtime env (max_by_key ?b ?r) = Some t" using tm by auto
  moreover have "\<forall>m'\<in>set matches. \<forall>t'. getmtime env m' = Some t' \<longrightarrow> t' \<le> t"
  proof (intro ballI allI impI)
    fix m' t' assume "m' \<in> set matches" "getmtime env m' = Some t'"
    then have "(m', t') \<in> set (?b # ?r)" using ms by force
    with t(2) show "t' \<le> t" by force
  qed
  ultimately show ?thesis using res mem by blast
qed

lemma resolve_and_build_info_is_temp_iff:
  "resolve_and_build_info_is_temp path \<longleftrightarrow>
     (\<exists>p q. lower path = p @ ''gradio'' @ q) \<and>
     ((\<exists>p q. lower path = p @ ''temp'' @ q) \<or> (\<exists>p q. lower path = p @ ''appdata'' @ q))"
  unfolding resolve_and_build_info_is_temp_def str_in_iff by (rule refl)

lemma resolve_source_image_is_temp_iff:
  "resolve_source_image_is_temp path \<longleftrightarrow>
     (\<exists>p q. lower path = p @ ''gradio'' @ q) \<and> (\<exists>p q. lower path = p @ ''temp'' @ q)"
  unfolding resolve_source_image_is_temp_def str_in_iff by (rule refl)

lemma truthy_path_value [simp]: "truthy (path_value x) = truthy_path x"
  by (cases x) auto

lemma map_of_dict_set: "map_of (dict_set d k v) = (map_of d)(k \<mapsto> v)"
  by (simp add: dict_set_def update_conv')

lemma map_of_all_None: "(\<forall>k. map_of m k = None) \<Longrightarrow> m = []"
  by (cases m) (auto split: if_splits)

lemma concat_all_Nil: "(\<forall>x\<in>set xs. f x = []) \<Longrightarrow> concat (map f xs) = []"
  by (induction xs) auto

lemma collapse_cases:
  fixes xs :: "pyval list"
  assumes "stored = (if xs = [] then None else Some (if length xs > 1 then PList xs else hd xs))"
  shows "(xs = [] \<longrightarrow> stored = None) \<and>
         (\<forall>x. xs = [x] \<longrightarrow> stored = Some x) \<and>
         (length xs > 1 \<longrightarrow> stored = Some (PList xs))"
  using assms by auto

subsection \<open>\<open>find_file_by_name\<close>\<close>

text \<open>
  The recorded calls are all that the search depends on: an environment that answers
  them alike gives the same result (and the same calls).
\<close>

lemma those_same_answer:
  "\<forall>c\<in>set (getmtime_calls env ms). same_answer env env' c \<Longrightarrow>
     those (map (getmtime env') ms) = those (map (getmtime env) ms)"
  by (induction ms) (auto split: option.splits if_splits)

lemma max_getmtime_same_answer:
  "\<forall>c\<in>set (getmtime_calls env ms). same_answer env env' c \<Longrightarrow>
     max_getmtime env' ms = max_getmtime env ms"
  by (simp add: max_getmtime_def those_same_answer)

lemma find_in_dirs_same_answer:
  "\<forall>c\<in>set (find_in_dirs_calls env filename dirs recursive). same_answer env env' c \<Longrightarrow>
     find_in_dirs env' filename dirs recursive = find_in_dirs env filename dirs recursive \<and>
     find_in_dirs_calls env' filename dirs recursive = find_in_dirs_calls env filename dirs recursive"
proof (induction dirs)
  case Nil
  show ?case by simp
next
  case (Cons d dirs)
  from Cons.prems have d: "isdir env' d = isdir env d" by simp
  show ?case
  proof (cases "isdir env d")
    case False
    with Cons d show ?thesis by simp
  next
    case True
    show ?thesis
    proof (cases filename)
      case (PStr name)
      from Cons.prems True PStr have f: "isfile env' (os_path_join d name) = isfile env (os_path_join d name)"
        by (simp add: Let_def)
      show ?thesis
      proof (cases "isfile env (os_path_join d name) \<or> \<not> recursive")
        case t: True
        with Cons True PStr d f show ?thesis by (auto simp: Let_def)
      next
        case t: False
        let ?pat = "os_path_join (os_path_join d ''**'') name"
        from Cons.prems True PStr t have g: "glob env' ?pat = glob env ?pat"
          by (simp add: Let_def)
        show ?thesis
        proof (cases "glob env ?pat = []")
          case e: True
          with Cons True PStr d f g t show ?thesis by (auto simp: Let_def)
        next
          case e: False
          with Cons.prems True PStr t have
            a: "\<forall>c\<in>set (getmtime_calls env (glob env ?pat)). same_answer env env' c"
            by (simp add: Let_def)
          from max_getmtime_same_answer[OF a] have
            m: "max_getmtime env' (glob env ?pat) = max_getmtime env (glob env ?pat)" .
          have gc: "getmtime_calls env' ms = getmtime_calls env ms"
            if "\<forall>c\<in>set (getmtime_calls env ms). same_answer env env' c" for ms
            using that by (induction ms) (auto split: if_splits)
          from True PStr d f g t e m gc[OF a] show ?thesis by (simp add: Let_def)
        qed
      qed
    qed (use True d in simp_all)
  qed
qed

lemma find_file_by_name_same_answer:
  assumes "plugin_dir env' = plugin_dir env"
    and "\<forall>c\<in>set (find_file_by_name_calls env filename search_dirs recursive).
           same_answer env env' c"
  shows "find_file_by_name env' filename search_dirs recursive =
           find_file_by_name env filename search_dirs recursive"
proof (cases "truthy filename")
  case False
  then show ?thesis by (simp add: find_file_by_name_def)
next
  case True
  let ?dirs = "case search_dirs of None \<Rightarrow> default_search_dirs env
               | Some ds \<Rightarrow> if ds = [] then default_search_dirs env else ds"
  from assms(1) have dd: "default_search_dirs env' = default_search_dirs env"
    by (simp add: default_search_dirs_def)
  from assms(2) True have
    "\<forall>c\<in>set (find_in_dirs_calls env filename ?dirs recursive). same_answer env env' c"
    by (simp add: find_file_by_name_calls_def Let_def)
  from find_in_dirs_same_answer[OF this] have
    "find_in_dirs env' filename ?dirs recursive = find_in_dirs env filename ?dirs recursive"
    by simp
  with True dd show ?thesis
    by (cases search_dirs) (auto simp: find_file_by_name_def Let_def split: if_splits)
qed

text \<open>
  C1 (amended). A non-empty filename that is a direct file child of a directory \<open>d\<close> of the
  search list is resolved to \<open>d/filename\<close> when every directory before \<open>d\<close> in the list
  either does not exist or yields no match: no direct file child and, with recursive
  search enabled, no match of the recursive glob. The search then ends with the two tests
  on \<open>d\<close>: its filesystem calls are those for the earlier directories followed by
  \<open>isdir d\<close> and \<open>isfile d/filename\<close>, with no glob below \<open>d\<close> and no call for any
  directory after \<open>d\<close>.
\<close>

theorem first_direct_match:
  assumes "name \<noteq> []"
    and "\<forall>d'\<in>set before. \<not> isdir env d' \<or>
           (\<not> isfile env (os_path_join d' name) \<and>
            (recursive \<longrightarrow> glob env (os_path_join (os_path_join d' ''**'') name) = []))"
    and "isdir env d" and "isfile env (os_path_join d name)"
  shows "find_file_by_name env (PStr name) (Some (before @ d # rest)) recursive =
           Inr (Some (os_path_join d name)) \<and>
         find_file_by_name_calls env (PStr name) (Some (before @ d # rest)) recursive =
           find_in_dirs_calls env (PStr name) before recursive @
           [IsDir d, IsFile (os_path_join d name)]"
proof
  have "find_file_by_name env (PStr name) (Some (before @ d # rest)) recursive =
        find_in_dirs env (PStr name) (before @ d # rest) recursive"
    using assms(1) by (simp add: find_file_by_name_def)
  also have "\<dots> = find_in_dirs env (PStr name) (d # rest) recursive"
    using assms(2) by (rule find_in_dirs_skip)
  also have "\<dots> = Inr (Some (os_path_join d name))"
    using assms(3,4) by simp
  finally show "find_file_by_name env (PStr name) (Some (before @ d # rest)) recursive =
           Inr (Some (os_path_join d name))" .
next
  have "find_file_by_name_calls env (PStr name) (Some (before @ d # rest)) recursive =
        find_in_dirs_calls env (PStr name) (before @ d # rest) recursive"
    using assms(1) by (simp add: find_file_by_name_calls_def)
  also have "\<dots> = find_in_dirs_calls env (PStr name) before recursive @
                   find_in_dirs_calls env (PStr name) (d # rest) recursive"
    using assms(2) by (rule find_in_dirs_calls_skip)
  also have "find_in_dirs_calls env (PStr name) (d # rest) recursive =
               [IsDir d, IsFile (os_path_join d name)]"
    using assms(3,4) by simp
  finally show "find_file_by_name_calls env (PStr name) (Some (before @ d # rest)) recursive =
           find_in_dirs_calls env (PStr name) before recursive @
           [IsDir d, IsFile (os_path_join d name)]" .
qed

theorem first_direct_match_witness:
  "''img.png'' \<noteq> [] \<and> \<not> isdir two_dirs_env ''/missing'' \<and> isdir two_dirs_env ''/c'' \<and>
   isdir two_dirs_env ''/b'' \<and> isfile two_dirs_env (os_path_join ''/b'' ''img.png'') \<and>
   find_file_by_name two_dirs_env (PStr ''img.png'')
       (Some ([''/missing'', ''/c''] @ ''/b'' # [''/a''])) True =
     Inr (Some ''/b/img.png'') \<and>
   find_file_by_name_calls two_dirs_env (PStr ''img.png'')
       (Some ([''/missing'', ''/c''] @ ''/b'' # [''/a''])) True =
     [IsDir ''/missing'', IsDir ''/c'', IsFile ''/c/img.png'', Glob ''/c/**/img.png'',
      IsDir ''/b'', IsFile ''/b/img.png'']"
proof -
  have 1: "''img.png'' \<noteq> []" by simp
  have 2: "\<forall>d'\<in>set [''/missing'', ''/c'']. \<not> isdir two_dirs_env d' \<or>
           (\<not> isfile two_dirs_env (os_path_join d' ''img.png'') \<and>
            (True \<longrightarrow> glob two_dirs_env (os_path_join (os_path_join d' ''**'') ''img.png'') = []))"
    by code_simp
  have 3: "isdir two_dirs_env ''/b''" by code_simp
  have 4: "isfile two_dirs_env (os_path_join ''/b'' ''img.png'')" by code_simp
  have 5: "\<not> isdir two_dirs_env ''/missing''" by code_simp
  have 6: "isdir two_dirs_env ''/c''" by code_simp
  have 7: "os_path_join ''/b'' ''img.png'' = ''/b/img.png''" by code_simp
  have 8: "find_in_dirs_calls two_dirs_env (PStr ''img.png'') [''/missing'', ''/c''] True =
             [IsDir ''/missing'', IsDir ''/c'', IsFile ''/c/img.png'', Glob ''/c/**/img.png'']"
    by code_simp
  note th = first_direct_match[OF 1 2 3 4, of "[''/a'']"]
  from th have r: "find_file_by_name two_dirs_env (PStr ''img.png'')
       (Some ([''/missing'', ''/c''] @ ''/b'' # [''/a''])) True = Inr (Some ''/b/img.png'')"
    by (simp only: 7)
  from th have c: "find_file_by_name_calls two_dirs_env (PStr ''img.png'')
       (Some ([''/missing'', ''/c''] @ ''/b'' # [''/a''])) True =
     [IsDir ''/missing'', IsDir ''/c'', IsFile ''/c/img.png'', Glob ''/c/**/img.png''] @
     [IsDir ''/b'', IsFile ''/b/img.png'']"
    by (simp only: 7 8)
  from 1 3 4 5 6 r c show ?thesis by (simp only: append.simps simp_thms)
qed

text \<open>
  The claim as written fails when an earlier directory has a recursive match: \<open>/b\<close> is
  the first directory of the list with \<open>img.png\<close> as a direct file child, and the search
  returns the match found below \<open>/a\<close>.
\<close>

theorem first_direct_match_counterexample:
  "isdir two_dirs_env ''/b'' \<and> isfile two_dirs_env (os_path_join ''/b'' ''img.png'') \<and>
   \<not> isfile two_dirs_env (os_path_join ''/a'' ''img.png'') \<and>
   find_file_by_name two_dirs_env (PStr ''img.png'') (Some [''/a'', ''/b'']) True =
     Inr (Some ''/a/new/img.png'') \<and>
   find_file_by_name two_dirs_env (PStr ''img.png'') (Some [''/a'', ''/b'']) True \<noteq>
     Inr (Some (os_path_join ''/b'' ''img.png''))"
  by code_simp

text \<open>
  C2 (amended). With recursive search enabled, when the search reaches a directory \<open>d\<close>
  (every earlier directory of the list is missing or yields nothing) that has no direct
  match and whose recursive glob returns the non-empty list \<open>matches\<close>, each with a
  modification time, the result is a member of \<open>matches\<close> whose modification time is
  greatest; for exactly two matches with different times it is the later-modified one.
\<close>

theorem most_recent_match:
  assumes "name \<noteq> []"
    and "\<forall>d'\<in>set before. \<not> isdir env d' \<or>
           (\<not> isfile env (os_path_join d' name) \<and>
            glob env (os_path_join (os_path_join d' ''**'') name) = [])"
    and "isdir env d" and "\<not> isfile env (os_path_join d name)"
    and "glob env (os_path_join (os_path_join d ''**'') name) = matches"
    and "matches \<noteq> []"
    and "\<forall>m\<in>set matches. getmtime env m \<noteq> None"
  shows "(\<exists>best t.
            find_file_by_name env (PStr name) (Some (before @ d # rest)) True = Inr (Some best) \<and>
            best \<in> set matches \<and> getmtime env best = Some t \<and>
            (\<forall>m\<in>set matches. \<forall>t'. getmtime env m = Some t' \<longrightarrow> t' \<le> t)) \<and>
         (\<forall>m1 m2 t1 t2.
            matches = [m1, m2] \<and> getmtime env m1 = Some t1 \<and> getmtime env m2 = Some t2 \<and> t1 \<noteq> t2 \<longrightarrow>
            find_file_by_name env (PStr name) (Some (before @ d # rest)) True =
              Inr (Some (if t1 < t2 then m2 else m1)))"
proof -
  have "find_file_by_name env (PStr name) (Some (before @ d # rest)) True =
        find_in_dirs env (PStr name) (before @ d # rest) True"
    using assms(1) by (simp add: find_file_by_name_def)
  also have "\<dots> = find_in_dirs env (PStr name) (d # rest) True"
    using assms(2) by (intro find_in_dirs_skip) simp
  also have "\<dots> = (case max_getmtime env matches of Inl e \<Rightarrow> Inl e | Inr m \<Rightarrow> Inr (Some m))"
    using assms(3,4,5,6) by (simp add: Let_def)
  finally have res: "find_file_by_name env (PStr name) (Some (before @ d # rest)) True =
     (case max_getmtime env matches of Inl e \<Rightarrow> Inl e | Inr m \<Rightarrow> Inr (Some m))" .
  from max_getmtime_greatest[OF assms(6,7)] obtain best t where
    bt: "max_getmtime env matches = Inr best" "best \<in> set matches" "getmtime env best = Some t"
        "\<forall>m\<in>set matches. \<forall>t'. getmtime env m = Some t' \<longrightarrow> t' \<le> t"
    by blast
  have first: "\<exists>best t.
            find_file_by_name env (PStr name) (Some (before @ d # rest)) True = Inr (Some best) \<and>
            best \<in> set matches \<and> getmtime env best = Some t \<and>
            (\<forall>m\<in>set matches. \<forall>t'. getmtime env m = Some t' \<longrightarrow> t' \<le> t)"
    using res bt by auto
  have second: "\<forall>m1 m2 t1 t2.
            matches = [m1, m2] \<and> getmtime env m1 = Some t1 \<and> getmtime env m2 = Some t2 \<and> t1 \<noteq> t2 \<longrightarrow>
            find_file_by_name env (PStr name) (Some (before @ d # rest)) True =
              Inr (Some (if t1 < t2 then m2 else m1))"
  proof (intro allI impI)
    fix m1 m2 t1 t2
    assume h: "matches = [m1, m2] \<and> getmtime env m1 = Some t1 \<and> getmtime env m2 = Some t2 \<and> t1 \<noteq> t2"
    then have "max_getmtime env matches = Inr (if t1 < t2 then m2 else m1)"
      by (simp add: max_getmtime_def)
    with res show "find_file_by_name env (PStr name) (Some (before @ d # rest)) True =
              Inr (Some (if t1 < t2 then m2 else m1))" by simp
  qed
  from first second show ?thesis by blast
qed

theorem most_recent_match_witness:
  "glob two_dirs_env (os_path_join (os_path_join ''/a'' ''**'') ''img.png'') =
     [''/a/old/img.png'', ''/a/new/img.png''] \<and>
   getmtime two_dirs_env ''/a/old/img.png'' = Some 10 \<and>
   getmtime two_dirs_env ''/a/new/img.png'' = Some 20 \<and>
   find_file_by_name two_dirs_env (PStr ''img.png'') (Some ([''/c''] @ ''/a'' # [''/b''])) True =
     Inr (Some ''/a/new/img.png'')"
proof -
  let ?ms = "[''/a/old/img.png'', ''/a/new/img.png'']"
  have 1: "''img.png'' \<noteq> []" by simp
  have 2: "\<forall>d'\<in>set [''/c'']. \<not> isdir two_dirs_env d' \<or>
           (\<not> isfile two_dirs_env (os_path_join d' ''img.png'') \<and>
            glob two_dirs_env (os_path_join (os_path_join d' ''**'') ''img.png'') = [])"
    by code_simp
  have 3: "isdir two_dirs_env ''/a''" by code_simp
  have 4: "\<not> isfile two_dirs_env (os_path_join ''/a'' ''img.png'')" by code_simp
  have 5: "glob two_dirs_env (os_path_join (os_path_join ''/a'' ''**'') ''img.png'') = ?ms"
    by code_simp
  have 6: "?ms \<noteq> []" by simp
  have t1: "getmtime two_dirs_env ''/a/old/img.png'' = Some 10" by code_simp
  have t2: "getmtime two_dirs_env ''/a/new/img.png'' = Some 20" by code_simp
  have 7: "\<forall>m\<in>set ?ms. getmtime two_dirs_env m \<noteq> None" using t1 t2 by simp
  note th = most_recent_match[OF 1 2 3 4 5 6 7, of "[''/b'']", THEN conjunct2, rule_format,
      of "''/a/old/img.png''" "''/a/new/img.png''" 10 20]
  have "?ms = ?ms \<and> getmtime two_dirs_env ''/a/old/img.png'' = Some 10 \<and>
        getmtime two_dirs_env ''/a/new/img.png'' = Some 20 \<and> (10::real) \<noteq> 20"
    using t1 t2 by simp
  from th[OF this]
  have "find_file_by_name two_dirs_env (PStr ''img.png'') (Some ([''/c''] @ ''/a'' # [''/b''])) True =
          Inr (Some ''/a/new/img.png'')"
    by simp
  with 5 t1 t2 show ?thesis by (intro conjI)
qed

text \<open>
  The claim as written fails when an earlier directory yields a match: \<open>/a\<close> has no
  direct match and two matches of different age below it, and the search over \<open>/b\<close>,
  \<open>/a\<close> returns the direct child of \<open>/b\<close>, which is neither of them.
\<close>

theorem most_recent_match_counterexample:
  "isdir two_dirs_env ''/a'' \<and> \<not> isfile two_dirs_env (os_path_join ''/a'' ''img.png'') \<and>
   glob two_dirs_env (os_path_join (os_path_join ''/a'' ''**'') ''img.png'') =
     [''/a/old/img.png'', ''/a/new/img.png''] \<and>
   getmtime two_dirs_env ''/a/old/img.png'' = Some 10 \<and>
   getmtime two_dirs_env ''/a/new/img.png'' = Some 20 \<and>
   find_file_by_name two_dirs_env (PStr ''img.png'') (Some [''/b'', ''/a'']) True =
     Inr (Some ''/b/img.png'') \<and>
   find_file_by_name two_dirs_env (PStr ''img.png'') (Some [''/b'', ''/a'']) True \<noteq>
     Inr (Some ''/a/new/img.png'')"
  by code_simp

text \<open>
  C3 (amended). An empty search list is replaced by the default output directory, two
  levels above the plugin directory: the result is that of the call with the one-element
  list holding that directory, and it is "not found" when that directory does not exist.
\<close>

theorem empty_search_dirs_default:
  "find_file_by_name env filename (Some []) recursive =
     find_file_by_name env filename
       (Some [os_path_join (os_path_dirname (os_path_dirname (plugin_dir env))) ''outputs'']) recursive \<and>
   (\<not> isdir env (os_path_join (os_path_dirname (os_path_dirname (plugin_dir env))) ''outputs'') \<longrightarrow>
      find_file_by_name env filename (Some []) recursive = Inr None)"
  by (simp add: find_file_by_name_def default_search_dirs_def)

theorem empty_search_dirs_default_witness:
  "\<not> isdir no_outputs_env (os_path_join (os_path_dirname (os_path_dirname (plugin_dir no_outputs_env))) ''outputs'') \<and>
   find_file_by_name no_outputs_env (PStr ''img.png'') (Some []) True = Inr None"
proof -
  have h: "\<not> isdir no_outputs_env
             (os_path_join (os_path_dirname (os_path_dirname (plugin_dir no_outputs_env))) ''outputs'')"
    by code_simp
  with empty_search_dirs_default[of no_outputs_env "PStr ''img.png''" True]
  show ?thesis by blast
qed

text \<open>
  The claim as written fails when the default output directory holds the file.
\<close>

theorem empty_search_dirs_counterexample:
  "find_file_by_name two_dirs_env (PStr ''img.png'') (Some []) True =
     Inr (Some ''/app/outputs/img.png'') \<and>
   find_file_by_name two_dirs_env (PStr ''img.png'') (Some []) True \<noteq> Inr None"
  by code_simp

text \<open>
  C5. The recursive branch returns whatever the glob lists. Here \<open>/out/run1/img.png\<close> is a
  directory: the search for \<open>img.png\<close> returns it, and it is not a regular file.
\<close>

theorem recursive_match_is_directory:
  "find_file_by_name folder_named_img_env (PStr ''img.png'') (Some [''/out'']) True =
     Inr (Some ''/out/run1/img.png'') \<and>
   \<not> isfile folder_named_img_env ''/out/run1/img.png'' \<and>
   isdir folder_named_img_env ''/out/run1/img.png''"
  by code_simp

text \<open>
  What the search does guarantee about a returned path: it is either \<open>d/filename\<close>, a
  regular file, for a directory \<open>d\<close> of the list, or one of the glob matches below such
  a directory.
\<close>

lemma max_by_key_member: "max_by_key b xs \<in> fst ` set (b # xs)"
  by (induction xs arbitrary: b) auto

lemma max_getmtime_member:
  assumes "max_getmtime env matches = Inr m"
  shows "m \<in> set matches"
proof -
  from assms obtain keys where k: "those (map (getmtime env) matches) = Some keys"
    by (auto simp: max_getmtime_def split: option.splits)
  with assms obtain b r where z: "zip matches keys = b # r" and m: "m = max_by_key b r"
    by (auto simp: max_getmtime_def split: list.splits)
  from max_by_key_member[of b r] m z have "m \<in> fst ` set (zip matches keys)" by simp
  then show ?thesis by (auto dest: set_zip_leftD)
qed

lemma find_in_dirs_result:
  assumes "find_in_dirs env (PStr name) dirs recursive = Inr (Some p)"
  shows "\<exists>d\<in>set dirs. isdir env d \<and>
           ((p = os_path_join d name \<and> isfile env p) \<or>
            (recursive \<and> p \<in> set (glob env (os_path_join (os_path_join d ''**'') name))))"
  using assms
proof (induction dirs)
  case Nil
  then show ?case by simp
next
  case (Cons d dirs)
  show ?case
  proof (cases "isdir env d")
    case False
    with Cons show ?thesis by auto
  next
    case True
    show ?thesis
    proof (cases "isfile env (os_path_join d name)")
      case f: True
      with Cons.prems True show ?thesis by auto
    next
      case f: False
      let ?ms = "glob env (os_path_join (os_path_join d ''**'') name)"
      show ?thesis
      proof (cases "recursive \<and> ?ms \<noteq> []")
        case r: True
        with Cons.prems True f have "max_getmtime env ?ms = Inr p"
          by (auto simp: Let_def split: sum.splits)
        from max_getmtime_member[OF this] True r show ?thesis by auto
      next
        case r: False
        with Cons.prems True f have "find_in_dirs env (PStr name) dirs recursive = Inr (Some p)"
          by (auto simp: Let_def split: if_splits)
        from Cons.IH[OF this] show ?thesis by auto
      qed
    qed
  qed
qed

subsection \<open>Empty and malformed inputs\<close>

text \<open>
  C9. \<open>find_file_by_name\<close> returns \<open>None\<close> for an absent and for an empty filename, and
  \<open>resolve_and_build_info\<close> returns \<open>None\<close> for the empty string, for \<open>None\<close> and for
  every value that is not a string; none of these calls raises.
\<close>

theorem empty_inputs_absent:
  "find_file_by_name env PNone search_dirs recursive = Inr None \<and>
   find_file_by_name env (PStr []) search_dirs recursive = Inr None \<and>
   resolve_and_build_info env (PStr []) = Inr None \<and>
   resolve_and_build_info env PNone = Inr None \<and>
   resolve_and_build_info env (PBool b) = Inr None \<and>
   resolve_and_build_info env (PInt i) = Inr None \<and>
   resolve_and_build_info env (PList xs) = Inr None \<and>
   resolve_and_build_info env (PDict kvs) = Inr None"
  by (simp add: find_file_by_name_def resolve_and_build_info_def)

subsection \<open>The two classifications of a temporary path\<close>

text \<open>
  C4. The two modules do not classify alike: a path below an \<open>AppData\<close> directory whose
  text holds \<open>gradio\<close> but not \<open>temp\<close> is temporary for \<open>resolve_and_build_info\<close> and
  not temporary for \<open>resolve_source_image\<close>, which tests the \<open>temp\<close> marker only. On such
  an upload the plugin records the original found in the output directory, and
  \<open>resolve_source_image\<close> returns the upload path itself without searching.
\<close>

theorem is_temp_classifications_differ:
  "resolve_and_build_info_is_temp ''/mnt/c/Users/me/AppData/Local/gradio_cache/ab12/img.png'' \<and>
   \<not> resolve_source_image_is_temp ''/mnt/c/Users/me/AppData/Local/gradio_cache/ab12/img.png'' \<and>
   resolve_and_build_info appdata_env
       (PStr ''/mnt/c/Users/me/AppData/Local/gradio_cache/ab12/img.png'') =
     Inr (Some [(''filename'', PStr ''img.png''), (''is_temp'', PBool True),
                (''original_path'', PStr ''/app/outputs/img.png'')]) \<and>
   resolve_source_image appdata_env
       (PStr ''/mnt/c/Users/me/AppData/Local/gradio_cache/ab12/img.png'') None =
     Inr (PStr ''/mnt/c/Users/me/AppData/Local/gradio_cache/ab12/img.png'')"
  by code_simp

text \<open>
  The test of \<open>resolve_source_image\<close> is the stronger one: whatever it classifies as
  temporary, \<open>resolve_and_build_info\<close> does too, and the two differ exactly on the paths
  that hold \<open>gradio\<close> and \<open>appdata\<close> but not \<open>temp\<close>.
\<close>

lemma is_temp_classifications_compared:
  "(resolve_source_image_is_temp p \<longrightarrow> resolve_and_build_info_is_temp p) \<and>
   (resolve_and_build_info_is_temp p \<noteq> resolve_source_image_is_temp p \<longleftrightarrow>
      str_in ''gradio'' (lower p) \<and> str_in ''appdata'' (lower p) \<and> \<not> str_in ''temp'' (lower p))"
  by (auto simp: resolve_source_image_is_temp_def resolve_and_build_info_is_temp_def)

subsection \<open>\<open>resolve_source_image\<close> on a record\<close>

text \<open>
  C6. For a record whose \<open>is_temp\<close> is true and whose \<open>path\<close> and \<open>filename\<close> are strings
  or absent: when \<open>find_file_by_name\<close> finds the filename, the found path is returned;
  when it finds nothing and the record's path is an existing file, that path is returned;
  when it finds nothing and the path is absent, empty or not an existing file, the result
  is \<open>None\<close>.
\<close>

theorem resolve_temp_record:
  assumes "truthy (dict_get_default d ''is_temp'' (PBool False))"
    and "dict_get d ''path'' = path_value path"
    and "dict_get d ''filename'' = path_value filename"
  shows "(\<forall>found. find_file_by_name env (path_value filename) search_dirs True = Inr (Some found) \<and>
            found \<noteq> [] \<longrightarrow>
            resolve_source_image env (PDict d) search_dirs = Inr (PStr found)) \<and>
         (find_file_by_name env (path_value filename) search_dirs True = Inr None \<longrightarrow>
            (\<forall>p. path = Some p \<and> p \<noteq> [] \<and> isfile env p \<longrightarrow>
               resolve_source_image env (PDict d) search_dirs = Inr (PStr p)) \<and>
            ((\<forall>p. path = Some p \<longrightarrow> p = [] \<or> \<not> isfile env p) \<longrightarrow>
               resolve_source_image env (PDict d) search_dirs = Inr PNone))"
proof -
  from assms(1) have ne: "d \<noteq> []" by (auto simp: dict_get_default_def)
  have nf: "\<not> truthy (path_value filename) \<Longrightarrow>
      find_file_by_name env (path_value filename) search_dirs True = Inr None"
    by (simp add: find_file_by_name_def)
  have body: "resolve_source_image env (PDict d) search_dirs =
     (case find_file_by_name env (path_value filename) search_dirs True of
        Inl e \<Rightarrow> Inl e
      | Inr found \<Rightarrow>
          if truthy_path found then Inr (path_value found)
          else (case path_and_isfile env (path_value path) of
                  Inl e \<Rightarrow> Inl e
                | Inr True \<Rightarrow> Inr (path_value path)
                | Inr False \<Rightarrow> Inr PNone))"
    using assms ne nf by (simp add: resolve_source_image_def Let_def)
  have pf: "path_and_isfile env (path_value path) =
              Inr (case path of None \<Rightarrow> False | Some p \<Rightarrow> p \<noteq> [] \<and> isfile env p)"
    by (cases path) (auto simp: path_and_isfile_def)
  show ?thesis
    unfolding body pf by (cases path) auto
qed

theorem resolve_temp_record_witness:
  "resolve_source_image two_dirs_env
     (PDict [(''path'', PStr ''/home/me/temp/gradio/abc/img.png''), (''filename'', PStr ''img.png''),
             (''is_temp'', PBool True)]) (Some [''/b'']) = Inr (PStr ''/b/img.png'') \<and>
   resolve_source_image two_dirs_env
     (PDict [(''path'', PStr ''/home/me/temp/gradio/abc/upload.png''), (''filename'', PStr ''upload.png''),
             (''is_temp'', PBool True)]) (Some [''/b'']) = Inr (PStr ''/home/me/temp/gradio/abc/upload.png'') \<and>
   resolve_source_image two_dirs_env
     (PDict [(''path'', PStr ''/home/me/temp/gradio/abc/gone.png''), (''filename'', PStr ''gone.png''),
             (''is_temp'', PBool True)]) (Some [''/b'']) = Inr PNone"
proof -
  let ?d1 = "[(''path'', PStr ''/home/me/temp/gradio/abc/img.png''), (''filename'', PStr ''img.png''),
             (''is_temp'', PBool True)]"
  let ?d2 = "[(''path'', PStr ''/home/me/temp/gradio/abc/upload.png''), (''filename'', PStr ''upload.png''),
             (''is_temp'', PBool True)]"
  let ?d3 = "[(''path'', PStr ''/home/me/temp/gradio/abc/gone.png''), (''filename'', PStr ''gone.png''),
             (''is_temp'', PBool True)]"
  have a1: "truthy (dict_get_default ?d1 ''is_temp'' (PBool False))" by code_simp
  have b1: "dict_get ?d1 ''path'' = path_value (Some ''/home/me/temp/gradio/abc/img.png'')" by code_simp
  have c1: "dict_get ?d1 ''filename'' = path_value (Some ''img.png'')" by code_simp
  have f1: "find_file_by_name two_dirs_env (path_value (Some ''img.png'')) (Some [''/b'']) True =
              Inr (Some ''/b/img.png'') \<and> ''/b/img.png'' \<noteq> []" by code_simp
  have r1: "resolve_source_image two_dirs_env (PDict ?d1) (Some [''/b'']) = Inr (PStr ''/b/img.png'')"
    using resolve_temp_record[OF a1 b1 c1, of two_dirs_env "Some [''/b'']"] f1 by blast
  have a2: "truthy (dict_get_default ?d2 ''is_temp'' (PBool False))" by code_simp
  have b2: "dict_get ?d2 ''path'' = path_value (Some ''/home/me/temp/gradio/abc/upload.png'')" by code_simp
  have c2: "dict_get ?d2 ''filename'' = path_value (Some ''upload.png'')" by code_simp
  have f2: "find_file_by_name two_dirs_env (path_value (Some ''upload.png'')) (Some [''/b'']) True =
              Inr None" by code_simp
  have e2: "Some ''/home/me/temp/gradio/abc/upload.png'' = Some ''/home/me/temp/gradio/abc/upload.png'' \<and>
            ''/home/me/temp/gradio/abc/upload.png'' \<noteq> [] \<and> isfile two_dirs_env ''/home/me/temp/gradio/abc/upload.png''"
    by code_simp
  have r2: "resolve_source_image two_dirs_env (PDict ?d2) (Some [''/b'']) =
              Inr (PStr ''/home/me/temp/gradio/abc/upload.png'')"
    using resolve_temp_record[OF a2 b2 c2, of two_dirs_env "Some [''/b'']"] f2 e2 by blast
  have a3: "truthy (dict_get_default ?d3 ''is_temp'' (PBool False))" by code_simp
  have b3: "dict_get ?d3 ''path'' = path_value (Some ''/home/me/temp/gradio/abc/gone.png'')" by code_simp
  have c3: "dict_get ?d3 ''filename'' = path_value (Some ''gone.png'')" by code_simp
  have f3: "find_file_by_name two_dirs_env (path_value (Some ''gone.png'')) (Some [''/b'']) True =
              Inr None" by code_simp
  have e3: "\<not> isfile two_dirs_env ''/home/me/temp/gradio/abc/gone.png''" by code_simp
  have r3: "resolve_source_image two_dirs_env (PDict ?d3) (Some [''/b'']) = Inr PNone"
    using resolve_temp_record[OF a3 b3 c3, of two_dirs_env "Some [''/b'']"] f3 e3 by blast
  from r1 r2 r3 show ?thesis by (intro conjI)
qed

subsection \<open>\<open>get_source_images_from_metadata\<close>\<close>








subsection \<open>\<open>resolve_and_build_info\<close> and \<open>process_source_paths\<close>\<close>

text \<open>
  C7. Every record that \<open>resolve_and_build_info\<close> returns comes from a non-empty string,
  holds the basename under \<open>filename\<close> and the classification under \<open>is_temp\<close>, and holds
  exactly one of \<open>original_path\<close> and \<open>temp_path\<close>: the given path as \<open>original_path\<close>
  when it is not temporary, the found path as \<open>original_path\<close> when it is temporary and
  the search succeeds, the given path as \<open>temp_path\<close> when it is temporary and the search
  finds nothing.
\<close>

theorem build_info_fields:
  assumes "resolve_and_build_info env v = Inr (Some info)"
  shows "\<exists>p. v = PStr p \<and> p \<noteq> [] \<and>
           map_of info ''filename'' = Some (PStr (os_path_basename p)) \<and>
           map_of info ''is_temp'' = Some (PBool (resolve_and_build_info_is_temp p)) \<and>
           ((map_of info ''original_path'' = None) \<noteq> (map_of info ''temp_path'' = None)) \<and>
           (\<not> resolve_and_build_info_is_temp p \<longrightarrow>
              map_of info ''original_path'' = Some (PStr p)) \<and>
           (resolve_and_build_info_is_temp p \<longrightarrow>
              (\<exists>found. find_file_by_name env (PStr (os_path_basename p))
                          (Some (get_configured_output_dirs env)) True = Inr found \<and>
                 (if truthy_path found
                  then map_of info ''original_path'' = Some (path_value found)
                  else map_of info ''temp_path'' = Some (PStr p))))"
proof -
  from assms obtain p where v: "v = PStr p" and ne: "p \<noteq> []"
    by (cases v) (auto simp: resolve_and_build_info_def split: if_splits)
  let ?base = "[(''filename'', PStr (os_path_basename p)),
                (''is_temp'', PBool (resolve_and_build_info_is_temp p))]"
  show ?thesis
  proof (cases "resolve_and_build_info_is_temp p")
    case False
    with assms v ne have "info = dict_set ?base ''original_path'' (PStr p)"
      by (simp add: resolve_and_build_info_def Let_def)
    then show ?thesis using v ne False by (simp add: map_of_dict_set)
  next
    case True
    with assms v ne obtain found where
      f: "find_file_by_name env (PStr (os_path_basename p))
            (Some (get_configured_output_dirs env)) True = Inr found"
      and i: "info = (if truthy_path found
                      then dict_set ?base ''original_path'' (path_value found)
                      else dict_set ?base ''temp_path'' (PStr p))"
      by (auto simp: resolve_and_build_info_def Let_def split: sum.splits if_splits)
    show ?thesis
    proof (cases "truthy_path found")
      case t: True
      with i have "info = dict_set ?base ''original_path'' (path_value found)" by simp
      then show ?thesis using v ne True f t by (simp add: map_of_dict_set)
    next
      case t: False
      with i have "info = dict_set ?base ''temp_path'' (PStr p)" by simp
      then show ?thesis using v ne True f t by (simp add: map_of_dict_set)
    qed
  qed
qed

theorem build_info_fields_witness:
  "resolve_and_build_info two_dirs_env (PStr ''/home/me/temp/gradio/abc/upload.png'') =
     Inr (Some [(''filename'', PStr ''upload.png''), (''is_temp'', PBool True),
                (''temp_path'', PStr ''/home/me/temp/gradio/abc/upload.png'')]) \<and>
   (\<exists>p. PStr ''/home/me/temp/gradio/abc/upload.png'' = PStr p \<and> p \<noteq> [] \<and>
      map_of [(''filename'', PStr ''upload.png''), (''is_temp'', PBool True),
              (''temp_path'', PStr ''/home/me/temp/gradio/abc/upload.png'')] ''filename'' =
        Some (PStr (os_path_basename p)) \<and>
      ((map_of [(''filename'', PStr ''upload.png''), (''is_temp'', PBool True),
                (''temp_path'', PStr ''/home/me/temp/gradio/abc/upload.png'')] ''original_path'' = None) \<noteq>
       (map_of [(''filename'', PStr ''upload.png''), (''is_temp'', PBool True),
                (''temp_path'', PStr ''/home/me/temp/gradio/abc/upload.png'')] ''temp_path'' = None)))"
proof -
  let ?info = "[(''filename'', PStr ''upload.png''), (''is_temp'', PBool True),
                (''temp_path'', PStr ''/home/me/temp/gradio/abc/upload.png'')]"
  have r: "resolve_and_build_info two_dirs_env (PStr ''/home/me/temp/gradio/abc/upload.png'') =
             Inr (Some ?info)"
    by code_simp
  from build_info_fields[OF r] have
    "\<exists>p. PStr ''/home/me/temp/gradio/abc/upload.png'' = PStr p \<and> p \<noteq> [] \<and>
       map_of ?info ''filename'' = Some (PStr (os_path_basename p)) \<and>
       ((map_of ?info ''original_path'' = None) \<noteq> (map_of ?info ''temp_path'' = None))"
    by blast
  with r show ?thesis by (intro conjI)
qed

lemma build_infos_eq:
  "build_infos env ps acc = Inr infos \<Longrightarrow>
     infos = acc @ concat (map (\<lambda>p. case resolve_and_build_info env p of
                                       Inr (Some i) \<Rightarrow> [PDict i] | _ \<Rightarrow> []) ps)"
proof (induction ps arbitrary: acc)
  case Nil
  then show ?case by simp
next
  case (Cons p ps)
  show ?case
  proof (cases "resolve_and_build_info env p")
    case (Inl e)
    with Cons.prems show ?thesis by simp
  next
    case (Inr r)
    show ?thesis
    proof (cases r)
      case None
      with Cons.prems Inr have "build_infos env ps acc = Inr infos" by simp
      from Cons.IH[OF this] show ?thesis using Inr None by simp
    next
      case (Some i)
      with Cons.prems Inr have "build_infos env ps (acc @ [PDict i]) = Inr infos" by simp
      from Cons.IH[OF this] show ?thesis using Inr Some by simp
    qed
  qed
qed

lemma process_roles_lookup:
  "process_roles env kvs acc = Inr out \<Longrightarrow> distinct (map fst kvs) \<Longrightarrow>
     map_of out k =
       (case map_of kvs k of
          None \<Rightarrow> map_of acc k
        | Some v \<Rightarrow> (case process_value env v of Inr (Some r) \<Rightarrow> Some r | _ \<Rightarrow> map_of acc k))"
proof (induction kvs arbitrary: acc)
  case Nil
  then show ?case by simp
next
  case (Cons kv kvs)
  obtain k' v' where kv: "kv = (k', v')" by (cases kv)
  from Cons.prems(2) kv have d: "distinct (map fst kvs)" and nk: "k' \<notin> fst ` set kvs" by auto
  from nk have nm: "map_of kvs k' = None" by (simp add: map_of_eq_None_iff)
  from Cons.prems(1) kv obtain r where pv: "process_value env v' = Inr r"
    by (auto split: sum.splits)
  show ?case
  proof (cases r)
    case None
    with Cons.prems(1) kv pv have "process_roles env kvs acc = Inr out" by simp
    from Cons.IH[OF this d] show ?thesis
      using kv pv None nm by (auto split: option.splits sum.splits)
  next
    case (Some r')
    with Cons.prems(1) kv pv have "process_roles env kvs (dict_set acc k' r') = Inr out" by simp
    from Cons.IH[OF this d] show ?thesis
      using kv pv Some nm by (auto simp: map_of_dict_set split: option.splits sum.splits)
  qed
qed

lemma process_roles_values:
  "process_roles env kvs acc = Inr out \<Longrightarrow> (k, v) \<in> set kvs \<Longrightarrow>
     \<exists>r. process_value env v = Inr r"
  by (induction kvs arbitrary: acc) (auto split: sum.splits option.splits)

lemma process_value_PList:
  assumes "process_value env (PList ps) = Inr r"
  shows "r = (let infos = concat (map (\<lambda>p. case resolve_and_build_info env p of
                                             Inr (Some i) \<Rightarrow> [PDict i] | _ \<Rightarrow> []) ps)
              in if infos = [] then None
                 else Some (if length infos > 1 then PList infos else hd infos))"
proof -
  from assms obtain infos where b: "build_infos env ps [] = Inr infos"
    by (auto simp: process_value_def split: sum.splits)
  from build_infos_eq[OF b] have e: "infos = concat (map (\<lambda>p. case resolve_and_build_info env p of
                                             Inr (Some i) \<Rightarrow> [PDict i] | _ \<Rightarrow> []) ps)" by simp
  from assms b have "r = (if infos = [] then None
                 else Some (if length infos > 1 then PList infos else hd infos))"
    by (auto simp: process_value_def)
  then show ?thesis unfolding e[symmetric] by (simp add: Let_def)
qed

lemma process_source_paths_stored:
  assumes "process_source_paths env (PDict kvs) = Inr out"
    and "distinct (map fst kvs)"
  shows "out \<noteq> Some []"
    and "(k, v) \<in> set kvs \<Longrightarrow> \<exists>r. process_value env v = Inr r \<and>
           (case out of None \<Rightarrow> None | Some result \<Rightarrow> map_of result k) = r"
    and "k \<notin> fst ` set kvs \<Longrightarrow> (case out of None \<Rightarrow> None | Some result \<Rightarrow> map_of result k) = None"
proof -
  have "\<exists>result. process_roles env kvs [] = Inr result \<and>
          out = (if result \<noteq> [] then Some result else None)"
  proof (cases "kvs = []")
    case True
    with assms(1) show ?thesis by (simp add: process_source_paths_def)
  next
    case False
    with assms(1) show ?thesis
      by (auto simp: process_source_paths_def split: sum.splits if_splits)
  qed
  then obtain result where r: "process_roles env kvs [] = Inr result"
    and o: "out = (if result \<noteq> [] then Some result else None)" by blast
  from o show "out \<noteq> Some []" by auto
  have st: "(case out of None \<Rightarrow> None | Some result \<Rightarrow> map_of result k) = map_of result k" for k
    using o by (cases "result = []") auto
  note lk = process_roles_lookup[OF r assms(2), simplified]
  { assume m: "(k, v) \<in> set kvs"
    from process_roles_values[OF r m] obtain r' where pv: "process_value env v = Inr r'" by blast
    from m assms(2) have "map_of kvs k = Some v" by simp
    with lk[of k] pv have "map_of result k = r'" by (cases r') auto
    with pv st show "\<exists>r. process_value env v = Inr r \<and>
           (case out of None \<Rightarrow> None | Some result \<Rightarrow> map_of result k) = r" by simp }
  { assume "k \<notin> fst ` set kvs"
    then have "map_of kvs k = None" by (simp add: map_of_eq_None_iff)
    with lk[of k] st show "(case out of None \<Rightarrow> None | Some result \<Rightarrow> map_of result k) = None"
      by simp }
qed

lemma process_value_PStr:
  assumes "process_value env (PStr s) = Inr r"
  shows "r = (case resolve_and_build_info env (PStr s) of
                Inr (Some i) \<Rightarrow> Some (PDict i) | _ \<Rightarrow> None)"
  using assms by (auto simp: process_value_def split: sum.splits option.splits)

lemma process_value_other:
  assumes "\<forall>ps. v \<noteq> PList ps" and "\<forall>s. v \<noteq> PStr s"
  shows "process_value env v = Inr None"
  using assms by (cases v) (simp_all add: process_value_def)

text \<open>
  C8. In a run of \<open>process_source_paths\<close> that returns, on a role map with distinct keys,
  what is stored under every key is determined by \<open>resolve_and_build_info\<close>: a role whose
  value is a list stores nothing when no element yields a record, the bare record when
  exactly one element does, and the list of records otherwise, the records being those
  returned for the elements, in order; a role whose value is a string stores the record
  returned for it, and nothing when there is none; a role with any other value, and a
  key that is not a role, stores nothing. When no element and no string of any role
  yields a record the result is \<open>None\<close>, and the result is never the empty dictionary.
\<close>

theorem process_source_paths_roles:
  assumes "process_source_paths env (PDict kvs) = Inr out"
    and "distinct (map fst kvs)"
  shows "(\<forall>k ps. (k, PList ps) \<in> set kvs \<longrightarrow>
            (let infos = concat (map (\<lambda>p. case resolve_and_build_info env p of
                                              Inr (Some i) \<Rightarrow> [PDict i] | _ \<Rightarrow> []) ps);
                 stored = (case out of None \<Rightarrow> None | Some result \<Rightarrow> map_of result k)
             in (infos = [] \<longrightarrow> stored = None) \<and>
                (\<forall>i. infos = [i] \<longrightarrow> stored = Some i) \<and>
                (length infos > 1 \<longrightarrow> stored = Some (PList infos)))) \<and>
         (\<forall>k s. (k, PStr s) \<in> set kvs \<longrightarrow>
            (case out of None \<Rightarrow> None | Some result \<Rightarrow> map_of result k) =
              (case resolve_and_build_info env (PStr s) of
                 Inr (Some i) \<Rightarrow> Some (PDict i) | _ \<Rightarrow> None)) \<and>
         (\<forall>k v. (k, v) \<in> set kvs \<and> (\<forall>ps. v \<noteq> PList ps) \<and> (\<forall>s. v \<noteq> PStr s) \<longrightarrow>
            (case out of None \<Rightarrow> None | Some result \<Rightarrow> map_of result k) = None) \<and>
         (\<forall>k. k \<notin> fst ` set kvs \<longrightarrow>
            (case out of None \<Rightarrow> None | Some result \<Rightarrow> map_of result k) = None) \<and>
         ((\<forall>k v. (k, v) \<in> set kvs \<longrightarrow>
             (\<forall>ps. v = PList ps \<longrightarrow>
                (\<forall>p\<in>set ps. \<forall>i. resolve_and_build_info env p \<noteq> Inr (Some i))) \<and>
             (\<forall>s. v = PStr s \<longrightarrow> (\<forall>i. resolve_and_build_info env v \<noteq> Inr (Some i)))) \<longrightarrow>
            out = None) \<and>
         out \<noteq> Some []"
proof -
  let ?stored = "\<lambda>k. case out of None \<Rightarrow> None | Some result \<Rightarrow> map_of result k"
  let ?infos = "\<lambda>ps. concat (map (\<lambda>p. case resolve_and_build_info env p of
                                              Inr (Some i) \<Rightarrow> [PDict i] | _ \<Rightarrow> []) ps)"
  have lists: "(?infos ps = [] \<longrightarrow> ?stored k = None) \<and>
        (\<forall>i. ?infos ps = [i] \<longrightarrow> ?stored k = Some i) \<and>
        (length (?infos ps) > 1 \<longrightarrow> ?stored k = Some (PList (?infos ps)))"
    if m: "(k, PList ps) \<in> set kvs" for k ps
  proof -
    from process_source_paths_stored(2)[OF assms m] obtain r where
      pv: "process_value env (PList ps) = Inr r" and st: "?stored k = r" by blast
    from process_value_PList[OF pv] have
      r: "r = (if ?infos ps = [] then None
               else Some (if length (?infos ps) > 1 then PList (?infos ps) else hd (?infos ps)))"
      by (simp add: Let_def)
    show ?thesis by (rule collapse_cases) (simp only: st r)
  qed
  have strs: "?stored k = (case resolve_and_build_info env (PStr s) of
                 Inr (Some i) \<Rightarrow> Some (PDict i) | _ \<Rightarrow> None)"
    if m: "(k, PStr s) \<in> set kvs" for k s
  proof -
    from process_source_paths_stored(2)[OF assms m] obtain r where
      pv: "process_value env (PStr s) = Inr r" and st: "?stored k = r" by blast
    from process_value_PStr[OF pv] st show ?thesis by simp
  qed
  have others: "?stored k = None"
    if m: "(k, v) \<in> set kvs" and n: "\<forall>ps. v \<noteq> PList ps" "\<forall>s. v \<noteq> PStr s" for k v
  proof -
    from process_source_paths_stored(2)[OF assms m] obtain r where
      pv: "process_value env v = Inr r" and st: "?stored k = r" by blast
    from process_value_other[OF n, of env] pv st show ?thesis by simp
  qed
  have absent: "?stored k = None" if "k \<notin> fst ` set kvs" for k
    by (rule process_source_paths_stored(3)[OF assms that])
  have ne: "out \<noteq> Some []" by (rule process_source_paths_stored(1)[OF assms])
  have none: "out = None"
    if all: "\<forall>k v. (k, v) \<in> set kvs \<longrightarrow>
             (\<forall>ps. v = PList ps \<longrightarrow>
                (\<forall>p\<in>set ps. \<forall>i. resolve_and_build_info env p \<noteq> Inr (Some i))) \<and>
             (\<forall>s. v = PStr s \<longrightarrow> (\<forall>i. resolve_and_build_info env v \<noteq> Inr (Some i)))"
  proof (cases out)
    case None
    then show ?thesis .
  next
    case (Some result)
    have "?stored k = None" for k
    proof (cases "k \<in> fst ` set kvs")
      case False
      then show ?thesis by (rule absent)
    next
      case True
      then obtain v where m: "(k, v) \<in> set kvs" by auto
      show ?thesis
      proof (cases v)
        case (PList ps)
        with all m have "\<forall>p\<in>set ps. \<forall>i. resolve_and_build_info env p \<noteq> Inr (Some i)" by blast
        then have "\<forall>p\<in>set ps. (case resolve_and_build_info env p of
                                   Inr (Some i) \<Rightarrow> [PDict i] | _ \<Rightarrow> []) = []"
          by (auto split: sum.splits option.splits)
        then have "?infos ps = []" by (rule concat_all_Nil)
        with lists[of k ps] m PList show ?thesis by blast
      next
        case (PStr s)
        with all m have "\<forall>i. resolve_and_build_info env (PStr s) \<noteq> Inr (Some i)" by blast
        then have "(case resolve_and_build_info env (PStr s) of
                 Inr (Some i) \<Rightarrow> Some (PDict i) | _ \<Rightarrow> None) = None"
          by (auto split: sum.splits option.splits)
        with strs[of k s] m PStr show ?thesis by simp
      qed (use m others[of k v] in simp_all)
    qed
    with Some have "\<forall>k. map_of result k = None" by simp
    then have "result = []" by (rule map_of_all_None)
    with Some ne show ?thesis by simp
  qed
  show ?thesis
  proof (intro conjI allI impI)
    fix k ps
    assume "(k, PList ps) \<in> set kvs"
    from lists[OF this]
    show "let infos = ?infos ps; stored = ?stored k
          in (infos = [] \<longrightarrow> stored = None) \<and>
             (\<forall>i. infos = [i] \<longrightarrow> stored = Some i) \<and>
             (length infos > 1 \<longrightarrow> stored = Some (PList infos))"
      by (simp only: Let_def)
  next
    fix k s
    assume "(k, PStr s) \<in> set kvs"
    then show "?stored k = (case resolve_and_build_info env (PStr s) of
                 Inr (Some i) \<Rightarrow> Some (PDict i) | _ \<Rightarrow> None)"
      by (rule strs)
  next
    fix k v
    assume "(k, v) \<in> set kvs \<and> (\<forall>ps. v \<noteq> PList ps) \<and> (\<forall>s. v \<noteq> PStr s)"
    then show "?stored k = None" using others[of k v] by blast
  next
    fix k
    assume "k \<notin> fst ` set kvs"
    then show "?stored k = None" by (rule absent)
  next
    assume "\<forall>k v. (k, v) \<in> set kvs \<longrightarrow>
             (\<forall>ps. v = PList ps \<longrightarrow>
                (\<forall>p\<in>set ps. \<forall>i. resolve_and_build_info env p \<noteq> Inr (Some i))) \<and>
             (\<forall>s. v = PStr s \<longrightarrow> (\<forall>i. resolve_and_build_info env v \<noteq> Inr (Some i)))"
    then show "out = None" by (rule none)
  next
    show "out \<noteq> Some []" by (rule ne)
  qed
qed

theorem process_source_paths_roles_witness:
  "process_source_paths two_dirs_env (PDict example_roles) =
     Inr (Some
       [(''image_start'',
         PDict [(''filename'', PStr ''upload.png''), (''is_temp'', PBool True),
                (''temp_path'', PStr ''/home/me/temp/gradio/abc/upload.png'')]),
        (''image_refs'',
         PList [PDict [(''filename'', PStr ''a.png''), (''is_temp'', PBool False),
                       (''original_path'', PStr ''/real/a.png'')],
                PDict [(''filename'', PStr ''b.png''), (''is_temp'', PBool False),
                       (''original_path'', PStr ''/real/b.png'')]]),
        (''image_mask'',
         PDict [(''filename'', PStr ''a.png''), (''is_temp'', PBool False),
                (''original_path'', PStr ''/real/a.png'')])]) \<and>
   distinct (map fst example_roles) \<and>
   (''image_mask'', PList [PStr ''/real/a.png'', PNone]) \<in> set example_roles \<and>
   (let infos = concat (map (\<lambda>p. case resolve_and_build_info two_dirs_env p of
                                     Inr (Some i) \<Rightarrow> [PDict i] | _ \<Rightarrow> [])
                            [PStr ''/real/a.png'', PNone]);
        stored = (case process_source_paths two_dirs_env (PDict example_roles) of
                    Inr (Some result) \<Rightarrow> map_of result ''image_mask'' | _ \<Rightarrow> None)
    in (infos = [] \<longrightarrow> stored = None) \<and>
       (\<forall>i. infos = [i] \<longrightarrow> stored = Some i) \<and>
       (length infos > 1 \<longrightarrow> stored = Some (PList infos)))"
proof -
  let ?res = "[(''image_start'',
         PDict [(''filename'', PStr ''upload.png''), (''is_temp'', PBool True),
                (''temp_path'', PStr ''/home/me/temp/gradio/abc/upload.png'')]),
        (''image_refs'',
         PList [PDict [(''filename'', PStr ''a.png''), (''is_temp'', PBool False),
                       (''original_path'', PStr ''/real/a.png'')],
                PDict [(''filename'', PStr ''b.png''), (''is_temp'', PBool False),
                       (''original_path'', PStr ''/real/b.png'')]]),
        (''image_mask'',
         PDict [(''filename'', PStr ''a.png''), (''is_temp'', PBool False),
                (''original_path'', PStr ''/real/a.png'')])]"
  have run: "process_source_paths two_dirs_env (PDict example_roles) = Inr (Some ?res)"
    by code_simp
  have dist: "distinct (map fst example_roles)" by code_simp
  have mem: "(''image_mask'', PList [PStr ''/real/a.png'', PNone]) \<in> set example_roles"
    by (simp add: example_roles_def)
  note th = process_source_paths_roles[OF run dist, THEN conjunct1, rule_format, OF mem]
  from th have "let infos = concat (map (\<lambda>p. case resolve_and_build_info two_dirs_env p of
                                     Inr (Some i) \<Rightarrow> [PDict i] | _ \<Rightarrow> [])
                            [PStr ''/real/a.png'', PNone]);
        stored = (case process_source_paths two_dirs_env (PDict example_roles) of
                    Inr (Some result) \<Rightarrow> map_of result ''image_mask'' | _ \<Rightarrow> None)
    in (infos = [] \<longrightarrow> stored = None) \<and>
       (\<forall>i. infos = [i] \<longrightarrow> stored = Some i) \<and>
       (length infos > 1 \<longrightarrow> stored = Some (PList infos))"
    unfolding run by (simp only: option.case sum.case)
  with run dist mem show ?thesis by (intro conjI)
qed

subsection \<open>Runs that return\<close>

text \<open>
  The runs considered above do return: when \<open>getmtime\<close> succeeds on everything that the
  glob lists, neither \<open>resolve_and_build_info\<close> nor \<open>process_source_paths\<close> raises, and
  \<open>resolve_source_image\<close> does not raise on a string nor on a record whose \<open>path\<close> and
  \<open>filename\<close> are strings or absent.
\<close>

lemma find_in_dirs_returns:
  assumes "\<forall>pattern. \<forall>m\<in>set (glob env pattern). getmtime env m \<noteq> None"
  shows "\<exists>r. find_in_dirs env (PStr name) dirs recursive = Inr r"
proof (induction dirs)
  case Nil
  show ?case by simp
next
  case (Cons d dirs)
  let ?ms = "glob env (os_path_join (os_path_join d ''**'') name)"
  show ?case
  proof (cases "isdir env d \<and> \<not> isfile env (os_path_join d name) \<and> recursive \<and> ?ms \<noteq> []")
    case True
    then have ne: "?ms \<noteq> []" by simp
    from assms have "\<forall>m\<in>set ?ms. getmtime env m \<noteq> None" by blast
    from max_getmtime_greatest[OF ne this] obtain best where "max_getmtime env ?ms = Inr best"
      by blast
    with True show ?thesis by (simp add: Let_def)
  next
    case False
    with Cons show ?thesis by (auto simp: Let_def)
  qed
qed

lemma resolve_and_build_info_returns:
  assumes "\<forall>pattern. \<forall>m\<in>set (glob env pattern). getmtime env m \<noteq> None"
  shows "\<exists>r. resolve_and_build_info env v = Inr r"
proof (cases v)
  case (PStr p)
  from find_in_dirs_returns[OF assms] have
    "\<exists>r. find_file_by_name env (PStr (os_path_basename p)) (Some (get_configured_output_dirs env)) True = Inr r"
    by (simp add: find_file_by_name_def Let_def)
  then obtain r where "find_file_by_name env (PStr (os_path_basename p))
      (Some (get_configured_output_dirs env)) True = Inr r" by blast
  with PStr show ?thesis by (simp add: resolve_and_build_info_def Let_def)
qed (simp_all add: resolve_and_build_info_def)

lemma build_infos_returns:
  assumes "\<forall>pattern. \<forall>m\<in>set (glob env pattern). getmtime env m \<noteq> None"
  shows "\<exists>r. build_infos env ps acc = Inr r"
proof (induction ps arbitrary: acc)
  case Nil
  show ?case by simp
next
  case (Cons p ps)
  from resolve_and_build_info_returns[OF assms, of p] obtain r where
    "resolve_and_build_info env p = Inr r" by blast
  with Cons show ?case by (cases r) auto
qed

lemma process_value_returns:
  assumes "\<forall>pattern. \<forall>m\<in>set (glob env pattern). getmtime env m \<noteq> None"
  shows "\<exists>r. process_value env v = Inr r"
proof (cases v)
  case (PList ps)
  from build_infos_returns[OF assms, of ps "[]"] obtain r where "build_infos env ps [] = Inr r"
    by blast
  with PList show ?thesis by (simp add: process_value_def)
next
  case (PStr s)
  from resolve_and_build_info_returns[OF assms, of "PStr s"] obtain r where
    "resolve_and_build_info env (PStr s) = Inr r" by blast
  with PStr show ?thesis by (cases r) (simp_all add: process_value_def)
qed (simp_all add: process_value_def)

lemma process_roles_returns:
  assumes "\<forall>pattern. \<forall>m\<in>set (glob env pattern). getmtime env m \<noteq> None"
  shows "\<exists>r. process_roles env kvs acc = Inr r"
proof (induction kvs arbitrary: acc)
  case Nil
  show ?case by simp
next
  case (Cons kv kvs)
  obtain k v where kv: "kv = (k, v)" by (cases kv)
  from process_value_returns[OF assms, of v] obtain r where "process_value env v = Inr r" by blast
  with Cons kv show ?case by (cases r) auto
qed

lemma process_source_paths_returns:
  assumes "\<forall>pattern. \<forall>m\<in>set (glob env pattern). getmtime env m \<noteq> None"
  shows "\<exists>out. process_source_paths env (PDict kvs) = Inr out"
proof -
  from process_roles_returns[OF assms, of kvs "[]"] obtain r where
    "process_roles env kvs [] = Inr r" by blast
  then show ?thesis by (simp add: process_source_paths_def)
qed

lemma find_file_by_name_returns:
  assumes "\<forall>pattern. \<forall>m\<in>set (glob env pattern). getmtime env m \<noteq> None"
    and "filename = path_value f"
  shows "\<exists>r. find_file_by_name env filename search_dirs recursive = Inr r"
proof (cases f)
  case None
  with assms(2) show ?thesis by (simp add: find_file_by_name_def)
next
  case (Some name)
  with assms(2) find_in_dirs_returns[OF assms(1)] show ?thesis
    by (simp add: find_file_by_name_def Let_def)
qed

lemma resolve_source_image_returns:
  assumes "\<forall>pattern. \<forall>m\<in>set (glob env pattern). getmtime env m \<noteq> None"
    and "\<forall>d. source_info = PDict d \<longrightarrow>
           (\<exists>path. dict_get d ''path'' = path_value path) \<and>
           (\<exists>filename. dict_get d ''filename'' = path_value filename)"
  shows "\<exists>r. resolve_source_image env source_info search_dirs = Inr r"
proof (cases source_info)
  case (PStr s)
  from find_file_by_name_returns[OF assms(1), of "PStr (os_path_basename s)" "Some (os_path_basename s)"]
  obtain r where "find_file_by_name env (PStr (os_path_basename s)) search_dirs True = Inr r"
    by auto
  with PStr show ?thesis by (simp add: resolve_source_image_def Let_def)
next
  case (PDict d)
  with assms(2) obtain path filename where
    p: "dict_get d ''path'' = path_value path" and f: "dict_get d ''filename'' = path_value filename"
    by blast
  from find_file_by_name_returns[OF assms(1) refl, of filename] obtain r where
    r: "find_file_by_name env (path_value filename) search_dirs True = Inr r" by blast
  have pf: "path_and_isfile env (path_value path) =
              Inr (case path of None \<Rightarrow> False | Some p \<Rightarrow> p \<noteq> [] \<and> isfile env p)"
    by (cases path) (auto simp: path_and_isfile_def)
  from PDict p f r pf show ?thesis
    by (auto simp: resolve_source_image_def Let_def split: bool.splits)
qed (simp_all add: resolve_source_image_def)

end
